theory Spec2Isabelle
  imports Complex_Main
begin

section \<open>Strings\<close>

text \<open>
  A Python \<open>str\<close> is modelled as a \<open>string\<close> whose characters are the code points
  below 256 (ASCII and Latin-1); every literal of the source lies in that range
  (\<open>'mat\'er'\<close> and \<open>'r\'eseau'\<close> contain the code point 0xE9). On that range
  \<open>str.lower\<close> maps A-Z, 0xC0-0xD6 and 0xD8-0xDE to the code point 32 above and keeps
  every other character, and \<open>str.strip\<close> removes leading and trailing characters for
  which \<open>str.isspace\<close> holds: 0x09-0x0D, 0x1C-0x20, 0x85 and 0xA0.
\<close>

definition isspace :: "char \<Rightarrow> bool" where
  "isspace c =
     (let n = (of_char c :: nat)
      in (9 \<le> n \<and> n \<le> 13) \<or> (28 \<le> n \<and> n \<le> 32) \<or> n = 133 \<or> n = 160)"

definition strip :: "string \<Rightarrow> string" where
  "strip s = rev (dropWhile isspace (rev (dropWhile isspace s)))"

definition lower_char :: "char \<Rightarrow> char" where
  "lower_char c =
     (let n = (of_char c :: nat)
      in if (65 \<le> n \<and> n \<le> 90) \<or> (192 \<le> n \<and> n \<le> 214) \<or> (216 \<le> n \<and> n \<le> 222)
         then char_of (n + 32) else c)"

definition lower :: "string \<Rightarrow> string" where
  "lower s = map lower_char s"

text \<open>\<open>startswith p s\<close> is Python's \<open>s.startswith(p)\<close>; \<open>contains sub s\<close> is \<open>sub in s\<close>.\<close>

fun startswith :: "string \<Rightarrow> string \<Rightarrow> bool" where
  "startswith [] s = True"
| "startswith (p # ps) [] = False"
| "startswith (p # ps) (c # cs) = (p = c \<and> startswith ps cs)"

fun contains :: "string \<Rightarrow> string \<Rightarrow> bool" where
  "contains sub [] = (sub = [])"
| "contains sub (c # cs) = (startswith sub (c # cs) \<or> contains sub cs)"

text \<open>\<open>str(n)\<close> for an \<open>int\<close>: the decimal digits, with a minus sign below zero.\<close>

fun str_nat :: "nat \<Rightarrow> string" where
  "str_nat n =
     (if n < 10 then [char_of (48 + n)]
      else str_nat (n div 10) @ [char_of (48 + n mod 10)])"

definition str_int :: "int \<Rightarrow> string" where
  "str_int i = (if i < 0 then CHR ''-'' # str_nat (nat (- i)) else str_nat (nat i))"

section \<open>Vocabulary (data.py)\<close>

definition CATEGORIES :: "string list" where
  "CATEGORIES = [''Hardware'', ''Software'', ''Network'', ''Application'',
                 ''Infrastructure'', ''Account'', ''Email'', ''Peripherals'']"

definition PRIORITIES :: "string list" where
  "PRIORITIES = [''Low'', ''Medium'', ''High'', ''Urgent'', ''Critical'']"

section \<open>Predictions, exceptions and the classification operation\<close>

text \<open>
  \<open>dspy.Prediction(category=..., priority=...)\<close>; each wrapper extends it with its own
  provenance field.
\<close>

record prediction =
  category :: string
  priority :: string

text \<open>
  The exceptions the modelled code can raise. \<open>Exception m\<close> is an exception whose
  \<open>str\<close> is \<open>m\<close>; \<open>StopIteration\<close> is what \<open>next\<close> without a default raises on an
  exhausted generator, \<open>IndexError\<close> what \<open>[0]\<close> raises on an empty list, \<open>ValueError\<close>
  and \<open>OverflowError\<close> what \<open>time.sleep\<close> and the conversion of an \<open>int\<close> to a float
  raise, \<open>AttributeError\<close> what a method call on a value without that method raises.
\<close>

datatype exn =
  Exception string | StopIteration | IndexError | ValueError | OverflowError | AttributeError

fun str_exn :: "exn \<Rightarrow> string" where
  "str_exn (Exception m) = m"
| "str_exn StopIteration = []"
| "str_exn IndexError = ''list index out of range''"
| "str_exn ValueError = ''sleep length must be non-negative''"
| "str_exn OverflowError = ''int too large to convert to float''"
| "str_exn AttributeError = ''object has no attribute strip''"

text \<open>
  The classification operation (\<open>dspy.ChainOfThought(TicketClassifier)\<close> under some
  language model) is external: given the ticket text it returns a raw prediction or
  raises.
\<close>

type_synonym lm = "string \<Rightarrow> exn + prediction"

section \<open>ValidatedTicketClassifier (patterns.py)\<close>

definition valid_categories :: "string set" where
  "valid_categories = set (map lower CATEGORIES)"

definition valid_priorities :: "string set" where
  "valid_priorities = set (map lower PRIORITIES)"

text \<open>\<open>next(c for c in vocab if c.lower() == x)\<close>: raises \<open>StopIteration\<close> when nothing matches.\<close>

definition next_match :: "string list \<Rightarrow> string \<Rightarrow> exn + string" where
  "next_match vocab x =
     (case find (\<lambda>c. lower c = x) vocab of None \<Rightarrow> Inl StopIteration | Some c \<Rightarrow> Inr c)"

text \<open>The category branch of \<open>validate_and_correct\<close>: the corrected category and whether
  \<open>is_valid\<close> is left untouched.\<close>

definition e_acute :: char where
  "e_acute = CHR 0xE9"

definition correct_category :: "string \<Rightarrow> exn + string \<times> bool" where
  "correct_category category_lower =
     (if category_lower \<notin> valid_categories then
        if contains ''hard'' category_lower
           \<or> contains (''mat'' @ [e_acute] @ ''r'') category_lower then Inr (''Hardware'', True)
        else if contains ''soft'' category_lower \<or> contains ''logic'' category_lower
          then Inr (''Software'', True)
        else if contains (''r'' @ [e_acute] @ ''seau'') category_lower
                \<or> contains ''network'' category_lower then Inr (''Network'', True)
        else if contains ''compte'' category_lower \<or> contains ''account'' category_lower
          then Inr (''Account'', True)
        else Inr (''Application'', False)
      else (case next_match CATEGORIES category_lower of
              Inl e \<Rightarrow> Inl e | Inr c \<Rightarrow> Inr (c, True)))"

definition correct_priority :: "string \<Rightarrow> exn + string \<times> bool" where
  "correct_priority priority_lower =
     (if priority_lower \<notin> valid_priorities then
        if contains ''critic'' priority_lower \<or> contains ''critique'' priority_lower
          then Inr (''Critical'', True)
        else if contains ''urgent'' priority_lower then Inr (''Urgent'', True)
        else if contains ''high'' priority_lower \<or> contains ''haut'' priority_lower
          then Inr (''High'', True)
        else if contains ''medium'' priority_lower \<or> contains ''moyen'' priority_lower
          then Inr (''Medium'', True)
        else Inr (''Low'', False)
      else (case next_match PRIORITIES priority_lower of
              Inl e \<Rightarrow> Inl e | Inr p \<Rightarrow> Inr (p, True)))"

text \<open>
  \<open>validate_and_correct(category, priority)\<close> returns \<open>(category, priority, is_valid)\<close>
  (the parameters are \<open>cat\<close> and \<open>pri\<close> here, the field names being taken by the record).
  \<open>is_valid\<close> starts as \<open>True\<close> and is set to \<open>False\<close> only in the two default branches.
\<close>

definition validate_and_correct :: "string \<Rightarrow> string \<Rightarrow> exn + string \<times> string \<times> bool" where
  "validate_and_correct cat pri =
     (let category_lower = lower (strip cat);
          priority_lower = lower (strip pri)
      in case correct_category category_lower of
           Inl e \<Rightarrow> Inl e
         | Inr (category', cat_ok) \<Rightarrow>
             (case correct_priority priority_lower of
                Inl e \<Rightarrow> Inl e
              | Inr (priority', pri_ok) \<Rightarrow> Inr (category', priority', cat_ok \<and> pri_ok)))"

text \<open>
  \<open>ValidatedTicketClassifier.forward\<close>: an exception of the classifier propagates; otherwise
  the raw fields go through \<open>validate_and_correct\<close>.
\<close>

record validated_prediction = prediction +
  is_valid :: bool

definition validated_forward :: "lm \<Rightarrow> string \<Rightarrow> exn + validated_prediction" where
  "validated_forward classifier ticket =
     (case classifier ticket of
        Inl e \<Rightarrow> Inl e
      | Inr result \<Rightarrow>
          (case validate_and_correct (category result) (priority result) of
             Inl e \<Rightarrow> Inl e
           | Inr (c, p, v) \<Rightarrow> Inr \<lparr>category = c, priority = p, is_valid = v\<rparr>))"

section \<open>RetryTicketClassifier (patterns.py)\<close>

text \<open>
  The classifier may behave differently each time it is called: \<open>classifier k\<close> is the
  operation as it behaves at its \<open>k\<close>-th invocation (from 0) within one \<open>forward\<close>. What
  \<open>forward\<close> does to the outside is recorded as a trace of invocations and sleeps; the
  \<open>print\<close> calls are console output and are not modelled.

  \<open>initial_delay\<close> is a Python float, as annotated: a finite value, an infinity or
  NaN. A finite float is a rational number here.
\<close>

datatype pyfloat = Finite rat | PosInf | NegInf | NaN

text \<open>
  \<open>self.initial_delay * (2 ** attempt)\<close>. \<open>2 ** attempt\<close> is an \<open>int\<close>, converted to a
  float for the product: from \<open>2 ** 1024\<close> on the conversion raises \<open>OverflowError\<close>. The
  product of a finite float and a power of two is exact, or an infinity once its
  magnitude reaches \<open>2 ^ 1024\<close>. (A float zero times a power of two is zero; an infinity
  or NaN stays what it is, the power of two being positive.)
\<close>

definition backoff_delay :: "pyfloat \<Rightarrow> nat \<Rightarrow> exn + pyfloat" where
  "backoff_delay d attempt =
     (if 1024 \<le> attempt then Inl OverflowError
      else case d of
             Finite r \<Rightarrow>
               Inr (if 2 ^ 1024 \<le> abs (r * 2 ^ attempt)
                    then (if r < 0 then NegInf else PosInf)
                    else Finite (r * 2 ^ attempt))
           | PosInf \<Rightarrow> Inr PosInf
           | NegInf \<Rightarrow> Inr NegInf
           | NaN \<Rightarrow> Inr NaN)"

text \<open>
  \<open>time.sleep(secs)\<close>: \<open>None\<close> when it sleeps, the exception when it refuses. It first
  converts \<open>secs\<close> to a timestamp, which raises \<open>ValueError\<close> for NaN and \<open>OverflowError\<close>
  for a magnitude beyond what a timestamp holds, and then raises \<open>ValueError\<close> for a
  negative length. The largest number of seconds a timestamp holds belongs to the
  platform and is the parameter \<open>limit\<close>.
\<close>

definition time_sleep :: "rat \<Rightarrow> pyfloat \<Rightarrow> exn option" where
  "time_sleep limit secs =
     (case secs of
        NaN \<Rightarrow> Some ValueError
      | PosInf \<Rightarrow> Some OverflowError
      | NegInf \<Rightarrow> Some OverflowError
      | Finite r \<Rightarrow>
          if limit < abs r then Some OverflowError
          else if r < 0 then Some ValueError
          else None)"

datatype event = Invoke nat | Sleep pyfloat

record retry_classifier =
  max_retries :: int
  initial_delay :: pyfloat

record retry_prediction = prediction +
  attempts :: nat

text \<open>\<open>f"Failed after {self.max_retries} attempts: {last_error}"\<close>; \<open>last_error\<close> is
  \<open>None\<close> when the loop body never ran.\<close>

definition failure_message :: "retry_classifier \<Rightarrow> exn option \<Rightarrow> string" where
  "failure_message self last_error =
     ''Failed after '' @ str_int (max_retries self) @ '' attempts: ''
       @ (case last_error of None \<Rightarrow> ''None'' | Some e \<Rightarrow> str_exn e)"

text \<open>
  The loop \<open>for attempt in range(self.max_retries)\<close>, entered at \<open>attempt\<close> with the trace
  so far. A success returns at once; a failure at the last attempt breaks to the final
  \<open>raise\<close>; any other failure computes the delay and sleeps. The delay and the sleep
  stand in the \<open>except\<close> block, so an exception of either leaves \<open>forward\<close> at once.
\<close>

function retry_loop ::
  "rat \<Rightarrow> retry_classifier \<Rightarrow> (nat \<Rightarrow> lm) \<Rightarrow> string \<Rightarrow> nat \<Rightarrow> exn option \<Rightarrow> event list
     \<Rightarrow> event list \<times> (exn + retry_prediction)" where
  "retry_loop limit self classifier ticket attempt last_error tr =
     (if int attempt < max_retries self then
        (case classifier attempt ticket of
           Inr result \<Rightarrow>
             (tr @ [Invoke attempt],
              Inr \<lparr>category = category result, priority = priority result,
                   attempts = attempt + 1\<rparr>)
         | Inl e \<Rightarrow>
             if int attempt = max_retries self - 1
             then (tr @ [Invoke attempt], Inl (Exception (failure_message self (Some e))))
             else (case backoff_delay (initial_delay self) attempt of
                     Inl overflow \<Rightarrow> (tr @ [Invoke attempt], Inl overflow)
                   | Inr delay \<Rightarrow>
                       (case time_sleep limit delay of
                          Some refused \<Rightarrow> (tr @ [Invoke attempt], Inl refused)
                        | None \<Rightarrow>
                            retry_loop limit self classifier ticket (attempt + 1) (Some e)
                              (tr @ [Invoke attempt, Sleep delay]))))
      else (tr, Inl (Exception (failure_message self last_error))))"
  by pat_completeness auto
termination
  by (relation "measure (\<lambda>(limit, self, classifier, ticket, attempt, last_error, tr).
                  nat (max_retries self) - attempt)") auto

definition retry_forward ::
  "rat \<Rightarrow> retry_classifier \<Rightarrow> (nat \<Rightarrow> lm) \<Rightarrow> string
     \<Rightarrow> event list \<times> (exn + retry_prediction)" where
  "retry_forward limit self classifier ticket =
     retry_loop limit self classifier ticket 0 None []"

section \<open>FallbackTicketClassifier (patterns.py)\<close>

record fallback_prediction = prediction +
  model_used :: string

text \<open>
  The primary failure \<open>e\<close> is printed and then dropped; the exception raised when both
  models fail is built from \<open>fallback_error\<close> alone.
\<close>

definition fallback_forward :: "lm \<Rightarrow> lm \<Rightarrow> string \<Rightarrow> exn + fallback_prediction" where
  "fallback_forward primary_lm fallback_lm ticket =
     (case primary_lm ticket of
        Inr result \<Rightarrow>
          Inr \<lparr>category = category result, priority = priority result,
               model_used = ''primary''\<rparr>
      | Inl e \<Rightarrow>
          (case fallback_lm ticket of
             Inr result \<Rightarrow>
               Inr \<lparr>category = category result, priority = priority result,
                    model_used = ''fallback''\<rparr>
           | Inl fallback_error \<Rightarrow>
               Inl (Exception (''Both models failed. Fallback error: ''
                                 @ str_exn fallback_error))))"

section \<open>EnsembleTicketClassifier (patterns.py)\<close>

text \<open>
  \<open>collections.Counter\<close> is a dict: it keeps its keys in the order of their first
  insertion, so it is an association list here. \<open>Counter(xs)\<close> counts the elements of
  \<open>xs\<close> from left to right.
\<close>

type_synonym counter = "(string \<times> nat) list"

fun counter_add :: "string \<Rightarrow> counter \<Rightarrow> counter" where
  "counter_add k [] = [(k, 1)]"
| "counter_add k ((k', n) # kvs) =
     (if k = k' then (k', n + 1) # kvs else (k', n) # counter_add k kvs)"

definition Counter :: "string list \<Rightarrow> counter" where
  "Counter xs = foldl (\<lambda>c k. counter_add k c) [] xs"

text \<open>\<open>c[k]\<close> on a Counter: a missing key counts 0.\<close>

definition counter_get :: "counter \<Rightarrow> string \<Rightarrow> nat" where
  "counter_get c k = (case map_of c k of None \<Rightarrow> 0 | Some n \<Rightarrow> n)"

text \<open>
  \<open>most_common(1)\<close> is \<open>heapq.nlargest(1, items, key=count)\<close>, which for one element is
  \<open>max(items, key=count)\<close>: a scan that replaces the best item only by a strictly larger
  one, so the first of several maximal items wins. On an empty Counter it is \<open>[]\<close>.
\<close>

fun max_by_count :: "string \<times> nat \<Rightarrow> counter \<Rightarrow> string \<times> nat" where
  "max_by_count best [] = best"
| "max_by_count best (kv # kvs) =
     (if snd best < snd kv then max_by_count kv kvs else max_by_count best kvs)"

definition most_common_1 :: "counter \<Rightarrow> (string \<times> nat) list" where
  "most_common_1 c = (case c of [] \<Rightarrow> [] | kv # kvs \<Rightarrow> [max_by_count kv kvs])"

text \<open>\<open>c.most_common(1)[0][0]\<close>\<close>

definition winning :: "counter \<Rightarrow> exn + string" where
  "winning c = (case most_common_1 c of [] \<Rightarrow> Inl IndexError | kv # _ \<Rightarrow> Inr (fst kv))"

text \<open>\<open>next((c for c in vocab if c.lower() == w), w)\<close>\<close>

definition next_match_default :: "string list \<Rightarrow> string \<Rightarrow> string" where
  "next_match_default vocab w =
     (case find (\<lambda>c. lower c = w) vocab of None \<Rightarrow> w | Some c \<Rightarrow> c)"

text \<open>
  The first loop of \<open>forward\<close>: each model that answers appends \<open>weight\<close> copies of its
  stripped, lowercased prediction (\<open>range(weight)\<close> is empty for \<open>weight \<le> 0\<close>); a model
  that raises is skipped.
\<close>

fun collect_predictions :: "string \<Rightarrow> (lm \<times> int) list \<Rightarrow> prediction list" where
  "collect_predictions ticket [] = []"
| "collect_predictions ticket ((lm, weight) # models) =
     (case lm ticket of
        Inr result \<Rightarrow>
          replicate (nat weight)
            \<lparr>category = lower (strip (category result)),
             priority = lower (strip (priority result))\<rparr>
     | Inl e \<Rightarrow> [])
     @ collect_predictions ticket models"

record ensemble_prediction = prediction +
  category_confidence :: rat
  priority_confidence :: rat
  num_models :: nat

text \<open>
  The confidences are the exact quotients; Python rounds them to the nearest float.
  The division is reached only with \<open>predictions\<close> non-empty.
\<close>

definition ensemble_forward :: "(lm \<times> int) list \<Rightarrow> string \<Rightarrow> exn + ensemble_prediction" where
  "ensemble_forward models ticket =
     (let predictions = collect_predictions ticket models
      in if predictions = [] then Inl (Exception ''No model could make a prediction'')
         else
           let categories = map category predictions;
               category_counts = Counter categories
           in case winning category_counts of
                Inl e \<Rightarrow> Inl e
              | Inr winning_category \<Rightarrow>
                  let priorities = map priority predictions;
                      priority_counts = Counter priorities
                  in case winning priority_counts of
                       Inl e \<Rightarrow> Inl e
                     | Inr winning_priority \<Rightarrow>
                         Inr \<lparr>category = next_match_default CATEGORIES winning_category,
                              priority = next_match_default PRIORITIES winning_priority,
                              category_confidence =
                                of_nat (counter_get category_counts winning_category)
                                  / of_nat (length predictions),
                              priority_confidence =
                                of_nat (counter_get priority_counts winning_priority)
                                  / of_nat (length predictions),
                              num_models = length models\<rparr>)"

section \<open>RefinedTicketClassifier (scripts/modules.py)\<close>

text \<open>
  The prediction handed to the reward function is an object whose attributes
  \<open>category\<close> and \<open>priority\<close> may each be absent (\<open>hasattr\<close> is false), hold a string, or
  hold a value that is not a string and has no \<open>strip\<close> method, such as \<open>None\<close> or a
  number. For the last, \<open>hasattr\<close> is true and \<open>.strip()\<close> raises \<open>AttributeError\<close>.
  (A value of another type that has \<open>strip\<close> and \<open>lower\<close>, such as \<open>bytes\<close>, is never
  in the vocabulary and scores like an off-vocabulary string.) The scores 0.0, 0.5 and
  1.0 are exact in floating point.
\<close>

datatype attr = Absent | Str string | NonStr

record scored_prediction =
  category_attr :: attr
  priority_attr :: attr

text \<open>One \<open>if hasattr(...)\<close> block of \<open>_reward_function\<close>, from the score so far.\<close>

definition score_field :: "string set \<Rightarrow> attr \<Rightarrow> rat \<Rightarrow> exn + rat" where
  "score_field valid a score =
     (case a of
        Absent \<Rightarrow> Inr score
      | NonStr \<Rightarrow> Inl AttributeError
      | Str s \<Rightarrow> Inr (if lower (strip s) \<in> valid then score + 1/2 else score))"

definition reward_function :: "'a \<Rightarrow> scored_prediction \<Rightarrow> exn + rat" where
  "reward_function args pred =
     (case score_field valid_categories (category_attr pred) 0 of
        Inl e \<Rightarrow> Inl e
      | Inr score \<Rightarrow> score_field valid_priorities (priority_attr pred) score)"

section \<open>Vocabulary of the properties\<close>

text \<open>
  The definitions below are not code of the repository: they name what the properties
  talk about. The keyword lists are the substrings tested by \<open>validate_and_correct\<close>,
  in the order of the source.
\<close>

definition category_keywords :: "string list" where
  "category_keywords = [''hard'', ''mat'' @ [e_acute] @ ''r'', ''soft'', ''logic'',
                        ''r'' @ [e_acute] @ ''seau'', ''network'', ''compte'', ''account'']"

definition priority_keywords :: "string list" where
  "priority_keywords =
     [''critic'', ''critique'', ''urgent'', ''high'', ''haut'', ''medium'', ''moyen'']"

text \<open>A string matches a heuristic when it contains one of the keywords.\<close>

definition matches_keyword :: "string list \<Rightarrow> string \<Rightarrow> bool" where
  "matches_keyword keywords s = list_ex (\<lambda>k. contains k s) keywords"

text \<open>A field of a scored prediction is valid when it holds a string whose stripped,
  lowercased value is in the vocabulary; \<open>field_score\<close> is what such a field is worth.\<close>

definition field_valid :: "string set \<Rightarrow> attr \<Rightarrow> bool" where
  "field_valid vocab a =
     (case a of Str s \<Rightarrow> lower (strip s) \<in> vocab | Absent \<Rightarrow> False | NonStr \<Rightarrow> False)"

definition field_score :: "string set \<Rightarrow> attr \<Rightarrow> rat" where
  "field_score vocab a = (if field_valid vocab a then 1/2 else 0)"

text \<open>
  The delay after the failed attempt \<open>k\<close> (from 0) is \<open>d * 2 ^ k\<close>. It can be slept when
  \<open>d\<close> is finite and not negative, \<open>2 ** k\<close> converts to a float, and the product
  neither overflows nor exceeds the platform's limit.
\<close>

definition scaled :: "pyfloat \<Rightarrow> nat \<Rightarrow> pyfloat" where
  "scaled d k =
     (case d of Finite r \<Rightarrow> Finite (r * 2 ^ k) | PosInf \<Rightarrow> PosInf | NegInf \<Rightarrow> NegInf
              | NaN \<Rightarrow> NaN)"

definition acceptable_delay :: "rat \<Rightarrow> pyfloat \<Rightarrow> nat \<Rightarrow> bool" where
  "acceptable_delay limit d k =
     (case d of
        Finite r \<Rightarrow> k < 1024 \<and> 0 \<le> r \<and> r * 2 ^ k \<le> limit \<and> r * 2 ^ k < 2 ^ 1024
      | PosInf \<Rightarrow> False | NegInf \<Rightarrow> False | NaN \<Rightarrow> False)"

text \<open>
  What a retry run with \<open>n\<close> attempts that all fail does from attempt \<open>a\<close> on: attempt
  \<open>k\<close> (from 0) is followed by a sleep of \<open>d * 2 ^ k\<close> unless it is the last one.
\<close>

definition backoff_events :: "pyfloat \<Rightarrow> nat \<Rightarrow> nat \<Rightarrow> event list" where
  "backoff_events d n k = (if k + 1 < n then [Invoke k, Sleep (scaled d k)] else [Invoke k])"

definition backoff_trace :: "pyfloat \<Rightarrow> nat \<Rightarrow> nat \<Rightarrow> event list" where
  "backoff_trace d n a = concat (map (backoff_events d n) [a..<n])"

definition is_invoke :: "event \<Rightarrow> bool" where
  "is_invoke ev = (case ev of Invoke k \<Rightarrow> True | Sleep d \<Rightarrow> False)"

fun sleeps :: "event list \<Rightarrow> pyfloat list" where
  "sleeps [] = []"
| "sleeps (Invoke k # evs) = sleeps evs"
| "sleeps (Sleep d # evs) = d # sleeps evs"

text \<open>The platform limit of the examples: a timestamp of 64 bits counting nanoseconds
  holds a little more than 9223372036 seconds.\<close>

definition example_limit :: rat where
  "example_limit = 9223372036"

text \<open>
  An ensemble member succeeds when its model answers; it casts a ballot when it succeeds
  with a weight of at least 1. \<open>total_weight field ticket models v\<close> is the weight
  accumulated by the value \<open>v\<close> of a field over the successful members (a weight below 1
  counts 0, as \<open>range(weight)\<close> is then empty), \<open>ballots_cast\<close> the weight accumulated by
  all of them.
\<close>

definition succeeds :: "lm \<Rightarrow> string \<Rightarrow> bool" where
  "succeeds lm ticket = (case lm ticket of Inr result \<Rightarrow> True | Inl e \<Rightarrow> False)"


fun total_weight ::
  "(prediction \<Rightarrow> string) \<Rightarrow> string \<Rightarrow> (lm \<times> int) list \<Rightarrow> string \<Rightarrow> nat" where
  "total_weight field ticket [] v = 0"
| "total_weight field ticket ((lm, weight) # models) v =
     (case lm ticket of
        Inr result \<Rightarrow> if lower (strip (field result)) = v then nat weight else 0
      | Inl e \<Rightarrow> 0)
     + total_weight field ticket models v"

fun ballots_cast :: "string \<Rightarrow> (lm \<times> int) list \<Rightarrow> nat" where
  "ballots_cast ticket [] = 0"
| "ballots_cast ticket ((lm, weight) # models) =
     (case lm ticket of Inr result \<Rightarrow> nat weight | Inl e \<Rightarrow> 0) + ballots_cast ticket models"

text \<open>
  The values put to the vote for a field, in the order of the members: the stripped,
  lowercased answer of each member that casts a ballot.
\<close>

fun member_values ::
  "(prediction \<Rightarrow> string) \<Rightarrow> string \<Rightarrow> (lm \<times> int) list \<Rightarrow> string list" where
  "member_values field ticket [] = []"
| "member_values field ticket ((lm, weight) # models) =
     (case lm ticket of
        Inr result \<Rightarrow> if 1 \<le> weight then [lower (strip (field result))] else []
      | Inl e \<Rightarrow> [])
     @ member_values field ticket models"

text \<open>
  \<open>w\<close> is the first of the highest values: it is among the values, no value has more
  weight, and every value met before the first \<open>w\<close> has strictly less.
\<close>

definition first_highest :: "(string \<Rightarrow> nat) \<Rightarrow> string list \<Rightarrow> string \<Rightarrow> bool" where
  "first_highest weight_of ballots w =
     (w \<in> set ballots
      \<and> list_all (\<lambda>v. weight_of v \<le> weight_of w) ballots
      \<and> list_all (\<lambda>v. weight_of v < weight_of w) (takeWhile (\<lambda>v. v \<noteq> w) ballots))"

text \<open>\<open>predicts lm ticket c p\<close>: the model answers exactly the pair \<open>(c, p)\<close>.\<close>

definition predicts :: "lm \<Rightarrow> string \<Rightarrow> string \<Rightarrow> string \<Rightarrow> bool" where
  "predicts lm ticket c p =
     (case lm ticket of Inr result \<Rightarrow> category result = c \<and> priority result = p
                      | Inl e \<Rightarrow> False)"

subsection \<open>Test doubles for the classification operation\<close>

definition always_returns :: "string \<Rightarrow> string \<Rightarrow> lm" where
  "always_returns c p ticket = Inr \<lparr>category = c, priority = p\<rparr>"

definition always_raises :: "string \<Rightarrow> lm" where
  "always_raises m ticket = Inl (Exception m)"

definition every_time :: "lm \<Rightarrow> nat \<Rightarrow> lm" where
  "every_time lm k = lm"

section \<open>Auxiliary facts\<close>

subsection \<open>The validator\<close>

lemma next_match_in_vocab:
  assumes "x \<in> set (map lower vocab)"
  shows "\<exists>c. next_match vocab x = Inr c \<and> c \<in> set vocab \<and> lower c = x"
proof (cases "find (\<lambda>c. lower c = x) vocab")
  case None
  then show ?thesis using assms by (auto simp: find_None_iff)
next
  case (Some c)
  then have "c \<in> set vocab \<and> lower c = x"
    by (auto simp: find_Some_iff)
  with Some show ?thesis by (simp add: next_match_def)
qed

lemma correct_category_total:
  "\<exists>c ok. correct_category x = Inr (c, ok) \<and> c \<in> set CATEGORIES"
proof (cases "x \<in> valid_categories")
  case True
  then obtain c where "next_match CATEGORIES x = Inr c" "c \<in> set CATEGORIES"
    using next_match_in_vocab[of x CATEGORIES] by (auto simp: valid_categories_def)
  with True show ?thesis by (auto simp: correct_category_def)
next
  case False
  then show ?thesis by (auto simp: correct_category_def CATEGORIES_def)
qed

lemma correct_priority_total:
  "\<exists>p ok. correct_priority x = Inr (p, ok) \<and> p \<in> set PRIORITIES"
proof (cases "x \<in> valid_priorities")
  case True
  then obtain p where "next_match PRIORITIES x = Inr p" "p \<in> set PRIORITIES"
    using next_match_in_vocab[of x PRIORITIES] by (auto simp: valid_priorities_def)
  with True show ?thesis by (auto simp: correct_priority_def)
next
  case False
  then show ?thesis by (auto simp: correct_priority_def PRIORITIES_def)
qed

lemma canonical_category_fixed:
  "list_all (\<lambda>c. correct_category (lower (strip c)) = Inr (c, True)) CATEGORIES"
  by code_simp

lemma canonical_priority_fixed:
  "list_all (\<lambda>p. correct_priority (lower (strip p)) = Inr (p, True)) PRIORITIES"
  by code_simp

lemma validate_and_correct_total:
  "\<exists>c p v. validate_and_correct x y = Inr (c, p, v) \<and> c \<in> set CATEGORIES \<and> p \<in> set PRIORITIES"
proof -
  obtain c ok where c: "correct_category (lower (strip x)) = Inr (c, ok)" "c \<in> set CATEGORIES"
    using correct_category_total by blast
  obtain p ok' where p: "correct_priority (lower (strip y)) = Inr (p, ok')" "p \<in> set PRIORITIES"
    using correct_priority_total by blast
  from c p show ?thesis by (simp add: validate_and_correct_def)
qed

lemma validate_canonical:
  assumes "c \<in> set CATEGORIES" "p \<in> set PRIORITIES"
  shows "validate_and_correct c p = Inr (c, p, True)"
proof -
  have "correct_category (lower (strip c)) = Inr (c, True)"
    using canonical_category_fixed assms(1) by (simp add: list_all_iff)
  moreover have "correct_priority (lower (strip p)) = Inr (p, True)"
    using canonical_priority_fixed assms(2) by (simp add: list_all_iff)
  ultimately show ?thesis by (simp add: validate_and_correct_def)
qed

subsection \<open>The retry loop\<close>

lemma startswith_refl: "startswith s (s @ t)"
  by (induction s) simp_all

lemma contains_suffix: "contains s (p @ s)"
proof (induction p)
  case Nil
  show ?case using startswith_refl[of s "[]"] by (cases s) simp_all
next
  case (Cons c p)
  then show ?case by simp
qed

lemma backoff_trace_last: "Suc a = n \<Longrightarrow> backoff_trace d n a = [Invoke a]"
  by (auto simp add: backoff_trace_def backoff_events_def upt_conv_Cons)

lemma backoff_trace_step:
  "Suc a < n \<Longrightarrow> backoff_trace d n a = [Invoke a, Sleep (scaled d a)] @ backoff_trace d n (Suc a)"
  by (simp add: backoff_trace_def backoff_events_def upt_conv_Cons)

lemma backoff_delay_Finite:
  "k < 1024 \<Longrightarrow> \<not> 2 ^ 1024 \<le> abs x \<Longrightarrow> x = r * 2 ^ k \<Longrightarrow>
   backoff_delay (Finite r) k = Inr (Finite x)"
  by (simp add: backoff_delay_def)

lemma time_sleep_Finite:
  "\<not> limit < abs x \<Longrightarrow> \<not> x < 0 \<Longrightarrow> time_sleep limit (Finite x) = None"
  by (simp add: time_sleep_def)

lemma acceptable_delay_sleeps:
  assumes "acceptable_delay limit d k"
  shows "backoff_delay d k = Inr (scaled d k)" and "time_sleep limit (scaled d k) = None"
proof -
  obtain r where r: "d = Finite r" "k < 1024" "0 \<le> r" "r * 2 ^ k \<le> limit" "r * 2 ^ k < 2 ^ 1024"
    using assms by (cases d) (simp_all add: acceptable_delay_def)
  define x where "x = r * 2 ^ k"
  have nn: "0 \<le> x" using r(3) by (simp add: x_def)
  then have a: "abs x = x" by simp
  have n1: "\<not> x < 0" using nn by simp
  have n2: "\<not> limit < abs x" using r(4) a by (simp add: x_def)
  have n3: "\<not> 2 ^ 1024 \<le> abs x" using r(5) a by (simp add: x_def)
  have s: "scaled d k = Finite x" using r(1) by (simp add: scaled_def x_def)
  show "backoff_delay d k = Inr (scaled d k)"
    using backoff_delay_Finite[OF r(2) n3 x_def] r(1) s by simp
  show "time_sleep limit (scaled d k) = None"
    using time_sleep_Finite[OF n2 n1] s by simp
qed

lemma retry_loop_all_fail:
  assumes fails: "\<forall>k. classifier k ticket = Inl (err k)"
  shows "int a < max_retries self \<Longrightarrow>
         list_all (acceptable_delay limit (initial_delay self)) [0..<nat (max_retries self) - 1] \<Longrightarrow>
         retry_loop limit self classifier ticket a le tr =
           (tr @ backoff_trace (initial_delay self) (nat (max_retries self)) a,
            Inl (Exception (failure_message self (Some (err (nat (max_retries self) - 1))))))"
  using fails
proof (induction limit self classifier ticket a le tr rule: retry_loop.induct)
  case (1 limit self classifier ticket attempt last_error tr)
  let ?n = "nat (max_retries self)"
  let ?d = "initial_delay self"
  have f: "classifier attempt ticket = Inl (err attempt)"
    using "1.prems" by simp
  have lt: "int attempt < max_retries self"
    using "1.prems" by simp
  have acc: "list_all (acceptable_delay limit ?d) [0..<?n - 1]"
    using "1.prems" by simp
  show ?case
  proof (cases "int attempt = max_retries self - 1")
    case True
    then have n: "Suc attempt = ?n" by simp
    then have "?n - 1 = attempt" by simp
    then show ?thesis
      using f lt True backoff_trace_last[OF n]
      by (subst retry_loop.simps) simp
  next
    case False
    with lt have lt': "int (attempt + 1) < max_retries self" by simp
    then have n: "Suc attempt < ?n" by simp
    then have "attempt \<in> set [0..<?n - 1]" by simp
    then have ok: "acceptable_delay limit ?d attempt"
      using acc by (simp add: list_all_iff)
    have bd: "backoff_delay ?d attempt = Inr (scaled ?d attempt)"
      and ts: "time_sleep limit (scaled ?d attempt) = None"
      using acceptable_delay_sleeps[OF ok] by simp_all
    have "retry_loop limit self classifier ticket (attempt + 1) (Some (err attempt))
            (tr @ [Invoke attempt, Sleep (scaled ?d attempt)]) =
          ((tr @ [Invoke attempt, Sleep (scaled ?d attempt)])
             @ backoff_trace ?d ?n (attempt + 1),
           Inl (Exception (failure_message self (Some (err (?n - 1))))))"
      using "1.IH"[OF lt f False bd ts lt' acc] "1.prems" by simp
    then show ?thesis
      using f lt False bd ts backoff_trace_step[OF n]
      by (subst retry_loop.simps) simp
  qed
qed

lemma sleeps_append: "sleeps (xs @ ys) = sleeps xs @ sleeps ys"
  by (induction xs rule: sleeps.induct) simp_all

lemma count_invokes_backoff:
  "a \<le> n \<Longrightarrow> length (filter is_invoke (backoff_trace d n a)) = n - a"
proof (induction "n - a" arbitrary: a)
  case 0
  then show ?case by (simp add: backoff_trace_def)
next
  case (Suc m)
  then have lt: "a < n" by simp
  show ?case
  proof (cases "Suc a = n")
    case True
    then show ?thesis by (simp add: backoff_trace_last is_invoke_def)
  next
    case False
    with lt have s: "Suc a < n" by simp
    have "m = n - Suc a" using Suc.hyps(2) by simp
    then have "length (filter is_invoke (backoff_trace d n (Suc a))) = n - Suc a"
      using Suc.hyps(1)[of "Suc a"] s by simp
    then show ?thesis using s by (simp add: backoff_trace_step is_invoke_def)
  qed
qed

lemma sleeps_backoff:
  "a \<le> n \<Longrightarrow> sleeps (backoff_trace d n a) = map (scaled d) [a..<n - 1]"
proof (induction "n - a" arbitrary: a)
  case 0
  then show ?case by (simp add: backoff_trace_def)
next
  case (Suc m)
  then have lt: "a < n" by simp
  show ?case
  proof (cases "Suc a = n")
    case True
    then show ?thesis by (auto simp add: backoff_trace_last)
  next
    case False
    with lt have s: "Suc a < n" by simp
    have "m = n - Suc a" using Suc.hyps(2) by simp
    then have "sleeps (backoff_trace d n (Suc a)) = map (scaled d) [Suc a..<n - 1]"
      using Suc.hyps(1)[of "Suc a"] s by simp
    moreover have "[a..<n - 1] = a # [Suc a..<n - 1]"
      using s by (simp add: upt_conv_Cons)
    ultimately show ?thesis using s by (simp add: backoff_trace_step)
  qed
qed

subsection \<open>Counters and the vote\<close>

lemma Counter_snoc: "Counter (xs @ [k]) = counter_add k (Counter xs)"
  by (simp add: Counter_def)

lemma keys_counter_add:
  "map fst (counter_add k c) = (if k \<in> set (map fst c) then map fst c else map fst c @ [k])"
proof (induction c)
  case Nil
  show ?case by simp
next
  case (Cons a c)
  obtain k' n where a: "a = (k', n)" by (cases a)
  show ?case
  proof (cases "k = k'")
    case True
    then show ?thesis using a by simp
  next
    case False
    then show ?thesis using a Cons.IH by simp
  qed
qed

lemma get_counter_add:
  "counter_get (counter_add k c) k' = counter_get c k' + (if k = k' then 1 else 0)"
  by (induction c) (auto simp: counter_get_def)

lemma Counter_get: "counter_get (Counter xs) k = count_list xs k"
proof (induction xs rule: rev_induct)
  case Nil
  show ?case by (simp add: Counter_def counter_get_def)
next
  case (snoc x xs)
  then show ?case by (auto simp: Counter_snoc get_counter_add)
qed

lemma Counter_keys_set: "set (map fst (Counter xs)) = set xs"
proof (induction xs rule: rev_induct)
  case Nil
  show ?case by (simp add: Counter_def)
next
  case (snoc x xs)
  then show ?case by (auto simp: Counter_snoc keys_counter_add)
qed

lemma Counter_keys_distinct: "distinct (map fst (Counter xs))"
proof (induction xs rule: rev_induct)
  case Nil
  show ?case by (simp add: Counter_def)
next
  case (snoc x xs)
  then show ?case using Counter_keys_set[of xs] by (auto simp: Counter_snoc keys_counter_add)
qed

lemma Counter_keys_before:
  "w \<in> set xs \<Longrightarrow>
   set (takeWhile (\<lambda>v. v \<noteq> w) (map fst (Counter xs))) = set (takeWhile (\<lambda>v. v \<noteq> w) xs)"
proof (induction xs rule: rev_induct)
  case Nil
  then show ?case by simp
next
  case (snoc x xs)
  show ?case
  proof (cases "w \<in> set xs")
    case True
    then have a: "takeWhile (\<lambda>v. v \<noteq> w) (xs @ [x]) = takeWhile (\<lambda>v. v \<noteq> w) xs"
      by (simp add: takeWhile_append1)
    have "w \<in> set (map fst (Counter xs))" using True Counter_keys_set by blast
    then have "takeWhile (\<lambda>v. v \<noteq> w) (map fst (Counter xs) @ [x])
               = takeWhile (\<lambda>v. v \<noteq> w) (map fst (Counter xs))"
      by (simp add: takeWhile_append1)
    then have "takeWhile (\<lambda>v. v \<noteq> w) (map fst (Counter (xs @ [x])))
               = takeWhile (\<lambda>v. v \<noteq> w) (map fst (Counter xs))"
      by (simp add: Counter_snoc keys_counter_add)
    with a snoc.IH[OF True] show ?thesis by simp
  next
    case False
    with snoc.prems have wx: "w = x" by simp
    have "\<forall>v \<in> set xs. v \<noteq> w" using False by blast
    then have a: "takeWhile (\<lambda>v. v \<noteq> w) (xs @ [x]) = xs"
      using wx by (simp add: takeWhile_append2)
    have "x \<notin> set (map fst (Counter xs))" using False wx Counter_keys_set by blast
    then have "map fst (Counter (xs @ [x])) = map fst (Counter xs) @ [x]"
      by (simp add: Counter_snoc keys_counter_add)
    moreover have "\<And>v. v \<in> set (map fst (Counter xs)) \<Longrightarrow> v \<noteq> w"
      using False Counter_keys_set by blast
    then have "takeWhile (\<lambda>v. v \<noteq> w) (map fst (Counter xs) @ [x])
                 = map fst (Counter xs) @ takeWhile (\<lambda>v. v \<noteq> w) [x]"
      by (rule takeWhile_append2)
    ultimately have "takeWhile (\<lambda>v. v \<noteq> w) (map fst (Counter (xs @ [x]))) = map fst (Counter xs)"
      using wx by simp
    with a Counter_keys_set[of xs] show ?thesis by simp
  qed
qed

lemma Counter_entry:
  "(k, n) \<in> set (Counter xs) \<Longrightarrow> k \<in> set xs \<and> n = count_list xs k"
proof -
  assume h: "(k, n) \<in> set (Counter xs)"
  then have "map_of (Counter xs) k = Some n"
    using Counter_keys_distinct by (simp add: map_of_is_SomeI)
  then have "counter_get (Counter xs) k = n" by (simp add: counter_get_def)
  moreover have "k \<in> set (map fst (Counter xs))" using h by force
  ultimately show ?thesis using Counter_get Counter_keys_set by auto
qed

lemma max_by_count_mem: "max_by_count b kvs \<in> set (b # kvs)"
  by (induction kvs arbitrary: b) auto

lemma max_by_count_ge: "kv \<in> set (b # kvs) \<Longrightarrow> snd kv \<le> snd (max_by_count b kvs)"
proof (induction kvs arbitrary: b kv)
  case Nil
  then show ?case by simp
next
  case (Cons a kvs)
  show ?case
  proof (cases "snd b < snd a")
    case True
    have "snd a \<le> snd (max_by_count a kvs)" using Cons.IH[where b = a and kv = a] by simp
    then show ?thesis using Cons.prems Cons.IH[where b = a and kv = kv] True by auto
  next
    case False
    have "snd b \<le> snd (max_by_count b kvs)" using Cons.IH[where b = b and kv = b] by simp
    then show ?thesis using Cons.prems Cons.IH[where b = b and kv = kv] False by auto
  qed
qed

lemma max_by_count_first:
  "kv \<in> set (takeWhile (\<lambda>kv. kv \<noteq> max_by_count b kvs) (b # kvs))
   \<Longrightarrow> snd kv < snd (max_by_count b kvs)"
proof (induction kvs arbitrary: b kv)
  case Nil
  then show ?case by simp
next
  case (Cons a kvs)
  show ?case
  proof (cases "snd b < snd a")
    case True
    let ?r = "max_by_count a kvs"
    have r: "max_by_count b (a # kvs) = ?r" using True by simp
    have ge: "snd a \<le> snd ?r" using max_by_count_ge[of a a kvs] by simp
    with True have "b \<noteq> ?r" by auto
    then have "kv = b \<or> kv \<in> set (takeWhile (\<lambda>kv. kv \<noteq> ?r) (a # kvs))"
      using Cons.prems r by (auto split: if_splits)
    then show ?thesis
    proof
      assume "kv = b" then show ?thesis using True ge r by simp
    next
      assume "kv \<in> set (takeWhile (\<lambda>kv. kv \<noteq> ?r) (a # kvs))"
      then show ?thesis using Cons.IH[where b = a and kv = kv] r by simp
    qed
  next
    case False
    let ?r = "max_by_count b kvs"
    have r: "max_by_count b (a # kvs) = ?r" using False by simp
    show ?thesis
    proof (cases "b = ?r")
      case True
      then show ?thesis using Cons.prems r by simp
    next
      case ne: False
      have lt: "snd b < snd ?r" using Cons.IH[where b = b and kv = b] ne by simp
      with False have "a \<noteq> ?r" by auto
      then have "kv = b \<or> kv = a \<or> kv \<in> set (takeWhile (\<lambda>kv. kv \<noteq> ?r) kvs)"
        using Cons.prems r ne by (auto split: if_splits)
      then show ?thesis
      proof (elim disjE)
        assume "kv = b" then show ?thesis using lt r by simp
      next
        assume "kv = a" then show ?thesis using lt False r by simp
      next
        assume "kv \<in> set (takeWhile (\<lambda>kv. kv \<noteq> ?r) kvs)"
        then have "kv \<in> set (takeWhile (\<lambda>kv. kv \<noteq> ?r) (b # kvs))" using ne by simp
        then show ?thesis using Cons.IH[where b = b and kv = kv] r by simp
      qed
    qed
  qed
qed

lemma count_list_replicate: "count_list (replicate n x) v = (if x = v then n else 0)"
  by (induction n) auto

lemma count_categories:
  "count_list (map category (collect_predictions ticket models)) v
     = total_weight category ticket models v"
  by (induction models) (auto simp: count_list_replicate split: sum.splits)

lemma count_priorities:
  "count_list (map priority (collect_predictions ticket models)) v
     = total_weight priority ticket models v"
  by (induction models) (auto simp: count_list_replicate split: sum.splits)

lemma length_predictions:
  "length (collect_predictions ticket models) = ballots_cast ticket models"
  by (induction models) (auto split: sum.splits)



lemma takeWhile_keys:
  assumes "distinct (map fst c)" "r \<in> set c"
  shows "takeWhile (\<lambda>k. k \<noteq> fst r) (map fst c) = map fst (takeWhile (\<lambda>kv. kv \<noteq> r) c)"
proof -
  have "takeWhile (\<lambda>kv. fst kv \<noteq> fst r) c = takeWhile (\<lambda>kv. kv \<noteq> r) c"
  proof (rule takeWhile_cong[OF refl])
    fix kv assume "kv \<in> set c"
    then show "(fst kv \<noteq> fst r) = (kv \<noteq> r)"
      using assms by (metis eq_key_imp_eq_value prod.collapse)
  qed
  then show ?thesis by (simp add: takeWhile_map comp_def)
qed

lemma winning_Counter:
  assumes "xs \<noteq> []"
  shows "\<exists>w. winning (Counter xs) = Inr w
            \<and> first_highest (count_list xs) xs w
            \<and> counter_get (Counter xs) w = count_list xs w"
proof -
  have "set (map fst (Counter xs)) \<noteq> {}" using assms Counter_keys_set by simp
  then obtain kv kvs where c: "Counter xs = kv # kvs" by (cases "Counter xs") auto
  define r where "r = max_by_count kv kvs"
  have win: "winning (Counter xs) = Inr (fst r)"
    by (simp add: winning_def most_common_1_def c r_def)
  have rin: "r \<in> set (Counter xs)" using max_by_count_mem[of kv kvs] c r_def by simp
  then have "(fst r, snd r) \<in> set (Counter xs)" by simp
  then have rk: "fst r \<in> set xs" and rn: "snd r = count_list xs (fst r)"
    using Counter_entry by blast+
  have entry: "\<And>e. e \<in> set (Counter xs) \<Longrightarrow> snd e = count_list xs (fst e)"
    using Counter_entry by (metis prod.collapse)
  have ge: "\<And>v. v \<in> set xs \<Longrightarrow> count_list xs v \<le> count_list xs (fst r)"
  proof -
    fix v assume "v \<in> set xs"
    then have "v \<in> set (map fst (Counter xs))" using Counter_keys_set by blast
    then obtain e where e: "e \<in> set (Counter xs)" "fst e = v" by auto
    then have "snd e \<le> snd r" using max_by_count_ge[of e kv kvs] c r_def by simp
    then show "count_list xs v \<le> count_list xs (fst r)" using entry[OF e(1)] e(2) rn by simp
  qed
  have lt: "\<And>v. v \<in> set (takeWhile (\<lambda>v. v \<noteq> fst r) xs)
              \<Longrightarrow> count_list xs v < count_list xs (fst r)"
  proof -
    fix v assume "v \<in> set (takeWhile (\<lambda>v. v \<noteq> fst r) xs)"
    then have "v \<in> set (takeWhile (\<lambda>v. v \<noteq> fst r) (map fst (Counter xs)))"
      using Counter_keys_before[OF rk] by simp
    then have "v \<in> set (map fst (takeWhile (\<lambda>e. e \<noteq> r) (Counter xs)))"
      using takeWhile_keys[OF Counter_keys_distinct rin] by simp
    then obtain e where e: "e \<in> set (takeWhile (\<lambda>e. e \<noteq> r) (Counter xs))" "fst e = v" by auto
    then have "snd e < snd r" using max_by_count_first[of e kv kvs] c r_def by simp
    moreover have "e \<in> set (Counter xs)" using e(1) by (rule set_takeWhileD[THEN conjunct1])
    ultimately show "count_list xs v < count_list xs (fst r)" using entry e(2) rn by simp
  qed
  have "first_highest (count_list xs) xs (fst r)"
    using rk ge lt by (simp add: first_highest_def list_all_iff)
  with win show ?thesis using Counter_get by blast
qed

lemma takeWhile_replicate_append:
  "takeWhile P (replicate n x @ ys) =
     (if P x then replicate n x @ takeWhile P ys
      else if n = 0 then takeWhile P ys else [])"
  by (induction n) auto

lemma category_ballots_before:
  "set (takeWhile P (map category (collect_predictions ticket models)))
     = set (takeWhile P (member_values category ticket models))"
proof (induction models)
  case Nil
  show ?case by simp
next
  case (Cons m models)
  obtain lm weight where m: "m = (lm, weight)" by (cases m)
  show ?case
  proof (cases "lm ticket")
    case (Inl e)
    then show ?thesis using Cons.IH m by simp
  next
    case (Inr result)
    then show ?thesis
      using Cons.IH m by (auto simp: takeWhile_replicate_append)
  qed
qed

lemma priority_ballots_before:
  "set (takeWhile P (map priority (collect_predictions ticket models)))
     = set (takeWhile P (member_values priority ticket models))"
proof (induction models)
  case Nil
  show ?case by simp
next
  case (Cons m models)
  obtain lm weight where m: "m = (lm, weight)" by (cases m)
  show ?case
  proof (cases "lm ticket")
    case (Inl e)
    then show ?thesis using Cons.IH m by simp
  next
    case (Inr result)
    then show ?thesis
      using Cons.IH m by (auto simp: takeWhile_replicate_append)
  qed
qed

lemma takeWhile_True: "takeWhile (\<lambda>v. True) xs = xs"
  by (induction xs) simp_all

lemma field_ballots_set:
  "set (map category (collect_predictions ticket models))
     = set (member_values category ticket models)"
  "set (map priority (collect_predictions ticket models))
     = set (member_values priority ticket models)"
  using category_ballots_before[of "\<lambda>v. True" ticket models]
        priority_ballots_before[of "\<lambda>v. True" ticket models]
  by (simp_all add: takeWhile_True)

lemma first_highest_members:
  "first_highest wt (map category (collect_predictions ticket models)) w
     = first_highest wt (member_values category ticket models) w"
  "first_highest wt (map priority (collect_predictions ticket models)) w
     = first_highest wt (member_values priority ticket models) w"
  using field_ballots_set[of ticket models]
        category_ballots_before[of "\<lambda>v. v \<noteq> w" ticket models]
        priority_ballots_before[of "\<lambda>v. v \<noteq> w" ticket models]
  by (simp_all add: first_highest_def list_all_iff)

lemma ensemble_forward_returns:
  assumes "collect_predictions ticket models \<noteq> []"
  shows "\<exists>wc wp.
           first_highest (total_weight category ticket models)
             (member_values category ticket models) wc
         \<and> first_highest (total_weight priority ticket models)
             (member_values priority ticket models) wp
         \<and> ensemble_forward models ticket =
             Inr \<lparr>category = next_match_default CATEGORIES wc,
                  priority = next_match_default PRIORITIES wp,
                  category_confidence =
                    of_nat (total_weight category ticket models wc)
                      / of_nat (ballots_cast ticket models),
                  priority_confidence =
                    of_nat (total_weight priority ticket models wp)
                      / of_nat (ballots_cast ticket models),
                  num_models = length models\<rparr>"
proof -
  let ?ps = "collect_predictions ticket models"
  have c0: "map category ?ps \<noteq> []" and p0: "map priority ?ps \<noteq> []" using assms by simp_all
  obtain wc where wc: "winning (Counter (map category ?ps)) = Inr wc"
      "first_highest (count_list (map category ?ps)) (map category ?ps) wc"
      "counter_get (Counter (map category ?ps)) wc = count_list (map category ?ps) wc"
    using winning_Counter[OF c0] by blast
  obtain wp where wp: "winning (Counter (map priority ?ps)) = Inr wp"
      "first_highest (count_list (map priority ?ps)) (map priority ?ps) wp"
      "counter_get (Counter (map priority ?ps)) wp = count_list (map priority ?ps) wp"
    using winning_Counter[OF p0] by blast
  have cc: "count_list (map category ?ps) = total_weight category ticket models"
    using count_categories by blast
  have pp: "count_list (map priority ?ps) = total_weight priority ticket models"
    using count_priorities by blast
  have "ensemble_forward models ticket =
             Inr \<lparr>category = next_match_default CATEGORIES wc,
                  priority = next_match_default PRIORITIES wp,
                  category_confidence =
                    of_nat (total_weight category ticket models wc)
                      / of_nat (ballots_cast ticket models),
                  priority_confidence =
                    of_nat (total_weight priority ticket models wp)
                      / of_nat (ballots_cast ticket models),
                  num_models = length models\<rparr>"
    using assms wc(1,3) wp(1,3) cc pp length_predictions[of ticket models]
    by (simp add: ensemble_forward_def Let_def)
  moreover have "first_highest (total_weight category ticket models)
                   (member_values category ticket models) wc"
    using wc(2) cc first_highest_members(1) by simp
  moreover have "first_highest (total_weight priority ticket models)
                   (member_values priority ticket models) wp"
    using wp(2) pp first_highest_members(2) by simp
  ultimately show ?thesis by blast
qed

lemma next_match_default_cases:
  "(w \<in> set (map lower vocab) \<longrightarrow>
      next_match_default vocab w \<in> set vocab \<and> lower (next_match_default vocab w) = w)
   \<and> (w \<notin> set (map lower vocab) \<longrightarrow> next_match_default vocab w = w)"
proof (cases "find (\<lambda>c. lower c = w) vocab")
  case None
  then have "w \<notin> set (map lower vocab)" by (auto simp: find_None_iff)
  with None show ?thesis by (simp add: next_match_default_def)
next
  case (Some c)
  then have "c \<in> set vocab \<and> lower c = w" by (auto simp: find_Some_iff)
  with Some show ?thesis by (auto simp: next_match_default_def)
qed

lemma next_match_default_categories:
  "if w \<in> valid_categories
   then next_match_default CATEGORIES w \<in> set CATEGORIES
        \<and> lower (next_match_default CATEGORIES w) = w
   else next_match_default CATEGORIES w = w"
  using next_match_default_cases[of w CATEGORIES] by (simp add: valid_categories_def)

lemma next_match_default_priorities:
  "if w \<in> valid_priorities
   then next_match_default PRIORITIES w \<in> set PRIORITIES
        \<and> lower (next_match_default PRIORITIES w) = w
   else next_match_default PRIORITIES w = w"
  using next_match_default_cases[of w PRIORITIES] by (simp add: valid_priorities_def)

lemma retry_loop_success:
  "retry_loop limit self classifier ticket a le tr = (tr', Inr rr) \<Longrightarrow>
   \<exists>k raw. classifier k ticket = Inr raw \<and> category rr = category raw
           \<and> priority rr = priority raw \<and> attempts rr = k + 1"
proof (induction limit self classifier ticket a le tr rule: retry_loop.induct)
  case (1 limit self classifier ticket attempt last_error tr)
  note eq = retry_loop.simps[of limit self classifier ticket attempt last_error tr]
  show ?case
  proof (cases "int attempt < max_retries self")
    case False
    then show ?thesis using "1.prems" eq by simp
  next
    case lt: True
    show ?thesis
    proof (cases "classifier attempt ticket")
      case (Inr result)
      then have "rr = \<lparr>category = category result, priority = priority result,
                       attempts = attempt + 1\<rparr>"
        using "1.prems" eq lt by simp
      then show ?thesis using Inr by auto
    next
      case (Inl e)
      show ?thesis
      proof (cases "int attempt = max_retries self - 1")
        case True
        then show ?thesis using "1.prems" eq lt Inl by simp
      next
        case False
        show ?thesis
        proof (cases "backoff_delay (initial_delay self) attempt")
          case overflow: (Inl x)
          then show ?thesis using "1.prems" eq lt Inl False by simp
        next
          case delay: (Inr d)
          show ?thesis
          proof (cases "time_sleep limit d")
            case (Some x)
            then show ?thesis using "1.prems" eq lt Inl False delay by simp
          next
            case None
            then have "retry_loop limit self classifier ticket (attempt + 1) (Some e)
                         (tr @ [Invoke attempt, Sleep d]) = (tr', Inr rr)"
              using "1.prems" eq lt Inl False delay by simp
            then show ?thesis using "1.IH"[OF lt Inl False delay None] by simp
          qed
        qed
      qed
    qed
  qed
qed

lemma ensemble_forward_raises:
  "collect_predictions ticket models = [] \<Longrightarrow>
   ensemble_forward models ticket = Inl (Exception ''No model could make a prediction'')"
  by (simp add: ensemble_forward_def)

section \<open>Properties\<close>

subsection \<open>C1: what the wrappers return\<close>

text \<open>
  C1, as stated: every result returned by the validated, retry, fallback or ensemble
  wrapper has its category in \<open>CATEGORIES\<close> and its priority in \<open>PRIORITIES\<close>.
  This fails for the retry wrapper, which hands the fields of the operation through
  untouched: an operation answering \<open>("netwrk", "urgnt")\<close> at the first attempt makes
  \<open>RetryTicketClassifier.forward\<close> return exactly these two strings, neither of which is
  in the vocabulary.
\<close>

theorem retry_returns_off_vocabulary:
  "retry_forward example_limit \<lparr>max_retries = 3, initial_delay = Finite 1\<rparr>
     (every_time (always_returns ''netwrk'' ''urgnt'')) ''VPN is down, cannot access files''
     = ([Invoke 0], Inr \<lparr>category = ''netwrk'', priority = ''urgnt'', attempts = 1\<rparr>)
   \<and> ''netwrk'' \<notin> set CATEGORIES \<and> ''urgnt'' \<notin> set PRIORITIES"
  by (simp add: retry_forward_def every_time_def always_returns_def CATEGORIES_def PRIORITIES_def)

text \<open>
  C1, amended: only the validated wrapper guarantees vocabulary membership. The retry
  wrapper returns the category and priority of one of the operation's answers unchanged;
  the fallback wrapper returns those of the primary or of the fallback answer unchanged;
  the ensemble wrapper returns, for each field, the vocabulary value in canonical casing
  when the winning ballot (stripped and lowercased) matches the vocabulary, and the
  winning ballot itself otherwise.
\<close>

theorem wrappers_returned_fields:
  "(validated_forward lm ticket = Inr rv \<longrightarrow>
      category rv \<in> set CATEGORIES \<and> priority rv \<in> set PRIORITIES)
   \<and> (retry_forward limit self classifier ticket = (tr, Inr rr) \<longrightarrow>
      (\<exists>k raw. classifier k ticket = Inr raw
               \<and> category rr = category raw \<and> priority rr = priority raw))
   \<and> (fallback_forward primary_lm fallback_lm ticket = Inr rf \<longrightarrow>
      (\<exists>raw. (primary_lm ticket = Inr raw \<or> fallback_lm ticket = Inr raw)
             \<and> category rf = category raw \<and> priority rf = priority raw))
   \<and> (ensemble_forward models ticket = Inr re \<longrightarrow>
      (\<exists>wc wp. first_highest (total_weight category ticket models)
                  (member_values category ticket models) wc
              \<and> first_highest (total_weight priority ticket models)
                  (member_values priority ticket models) wp
              \<and> (if wc \<in> valid_categories
                  then category re \<in> set CATEGORIES \<and> lower (category re) = wc
                  else category re = wc)
              \<and> (if wp \<in> valid_priorities
                  then priority re \<in> set PRIORITIES \<and> lower (priority re) = wp
                  else priority re = wp)))"
proof -
  have A: "validated_forward lm ticket = Inr rv \<longrightarrow>
      category rv \<in> set CATEGORIES \<and> priority rv \<in> set PRIORITIES"
  proof
    assume h: "validated_forward lm ticket = Inr rv"
    then obtain result where res: "lm ticket = Inr result"
      by (cases "lm ticket") (simp_all add: validated_forward_def)
    obtain c p v where v: "validate_and_correct (category result) (priority result) = Inr (c, p, v)"
        "c \<in> set CATEGORIES" "p \<in> set PRIORITIES"
      using validate_and_correct_total by blast
    with h res show "category rv \<in> set CATEGORIES \<and> priority rv \<in> set PRIORITIES"
      by (auto simp: validated_forward_def)
  qed
  have B: "retry_forward limit self classifier ticket = (tr, Inr rr) \<longrightarrow>
      (\<exists>k raw. classifier k ticket = Inr raw
               \<and> category rr = category raw \<and> priority rr = priority raw)"
  proof
    assume "retry_forward limit self classifier ticket = (tr, Inr rr)"
    then show "\<exists>k raw. classifier k ticket = Inr raw
                 \<and> category rr = category raw \<and> priority rr = priority raw"
      using retry_loop_success[of limit self classifier ticket 0 None "[]" tr rr]
      by (auto simp: retry_forward_def)
  qed
  have C: "fallback_forward primary_lm fallback_lm ticket = Inr rf \<longrightarrow>
      (\<exists>raw. (primary_lm ticket = Inr raw \<or> fallback_lm ticket = Inr raw)
             \<and> category rf = category raw \<and> priority rf = priority raw)"
  proof
    assume "fallback_forward primary_lm fallback_lm ticket = Inr rf"
    then show "\<exists>raw. (primary_lm ticket = Inr raw \<or> fallback_lm ticket = Inr raw)
               \<and> category rf = category raw \<and> priority rf = priority raw"
      by (auto simp: fallback_forward_def split: sum.splits)
  qed
  have D: "ensemble_forward models ticket = Inr re \<longrightarrow>
      (\<exists>wc wp. first_highest (total_weight category ticket models)
                  (member_values category ticket models) wc
              \<and> first_highest (total_weight priority ticket models)
                  (member_values priority ticket models) wp
              \<and> (if wc \<in> valid_categories
                  then category re \<in> set CATEGORIES \<and> lower (category re) = wc
                  else category re = wc)
              \<and> (if wp \<in> valid_priorities
                  then priority re \<in> set PRIORITIES \<and> lower (priority re) = wp
                  else priority re = wp))"
  proof
    assume h: "ensemble_forward models ticket = Inr re"
    then have ne: "collect_predictions ticket models \<noteq> []"
      using ensemble_forward_raises by fastforce
    obtain wc wp where w:
        "first_highest (total_weight category ticket models)
               (member_values category ticket models) wc"
        "first_highest (total_weight priority ticket models)
               (member_values priority ticket models) wp"
        "ensemble_forward models ticket =
               Inr \<lparr>category = next_match_default CATEGORIES wc,
                    priority = next_match_default PRIORITIES wp,
                    category_confidence =
                      of_nat (total_weight category ticket models wc)
                        / of_nat (ballots_cast ticket models),
                    priority_confidence =
                      of_nat (total_weight priority ticket models wp)
                        / of_nat (ballots_cast ticket models),
                    num_models = length models\<rparr>"
      using ensemble_forward_returns[OF ne] by blast
    have c: "category re = next_match_default CATEGORIES wc"
     and p: "priority re = next_match_default PRIORITIES wp"
      using h w(3) by auto
    have "if wc \<in> valid_categories
          then category re \<in> set CATEGORIES \<and> lower (category re) = wc
          else category re = wc"
      using next_match_default_categories[of wc] c by simp
    moreover have "if wp \<in> valid_priorities
                   then priority re \<in> set PRIORITIES \<and> lower (priority re) = wp
                   else priority re = wp"
      using next_match_default_priorities[of wp] p by simp
    ultimately show "(\<exists>wc wp. first_highest (total_weight category ticket models)
                  (member_values category ticket models) wc
              \<and> first_highest (total_weight priority ticket models)
                  (member_values priority ticket models) wp
              \<and> (if wc \<in> valid_categories
                  then category re \<in> set CATEGORIES \<and> lower (category re) = wc
                  else category re = wc)
              \<and> (if wp \<in> valid_priorities
                  then priority re \<in> set PRIORITIES \<and> lower (priority re) = wp
                  else priority re = wp))"
      using w(1,2) by blast
  qed
  from A B C D show ?thesis by (intro conjI)
qed

theorem wrappers_returned_fields_witness:
  "validated_forward (always_returns ''netwrk'' ''urgnt'') ''VPN is down''
     = Inr \<lparr>category = ''Application'', priority = ''Low'', is_valid = False\<rparr>
   \<and> retry_forward example_limit \<lparr>max_retries = 2, initial_delay = Finite 1\<rparr>
       (every_time (always_returns ''netwrk'' ''urgnt'')) ''VPN is down''
     = ([Invoke 0], Inr \<lparr>category = ''netwrk'', priority = ''urgnt'', attempts = 1\<rparr>)
   \<and> fallback_forward (always_raises ''timeout'') (always_returns ''netwrk'' ''urgnt'') ''VPN is down''
     = Inr \<lparr>category = ''netwrk'', priority = ''urgnt'', model_used = ''fallback''\<rparr>
   \<and> ensemble_forward [(always_returns ''Netwrk'' ''URGENT'', 1)] ''VPN is down''
     = Inr \<lparr>category = ''netwrk'', priority = ''Urgent'',
            category_confidence = 1, priority_confidence = 1, num_models = 1\<rparr>
   \<and> category \<lparr>category = ''Application'', priority = ''Low'', is_valid = False\<rparr> \<in> set CATEGORIES
     \<and> priority \<lparr>category = ''Application'', priority = ''Low'', is_valid = False\<rparr> \<in> set PRIORITIES
   \<and> (\<exists>k raw. (every_time (always_returns ''netwrk'' ''urgnt'')) k ''VPN is down'' = Inr raw
        \<and> category \<lparr>category = ''netwrk'', priority = ''urgnt'', attempts = 1\<rparr> = category raw
        \<and> priority \<lparr>category = ''netwrk'', priority = ''urgnt'', attempts = 1\<rparr> = priority raw)
   \<and> (\<exists>raw. ((always_raises ''timeout'') ''VPN is down'' = Inr raw \<or> (always_returns ''netwrk'' ''urgnt'') ''VPN is down'' = Inr raw)
        \<and> category \<lparr>category = ''netwrk'', priority = ''urgnt'', model_used = ''fallback''\<rparr> = category raw
        \<and> priority \<lparr>category = ''netwrk'', priority = ''urgnt'', model_used = ''fallback''\<rparr> = priority raw)
   \<and> (\<exists>wc wp. first_highest (total_weight category ''VPN is down'' [(always_returns ''Netwrk'' ''URGENT'', 1)])
                  (member_values category ''VPN is down'' [(always_returns ''Netwrk'' ''URGENT'', 1)]) wc
        \<and> first_highest (total_weight priority ''VPN is down'' [(always_returns ''Netwrk'' ''URGENT'', 1)])
                  (member_values priority ''VPN is down'' [(always_returns ''Netwrk'' ''URGENT'', 1)]) wp
        \<and> (if wc \<in> valid_categories
            then category \<lparr>category = ''netwrk'', priority = ''Urgent'',
            category_confidence = 1, priority_confidence = 1, num_models = 1\<rparr> \<in> set CATEGORIES
               \<and> lower (category \<lparr>category = ''netwrk'', priority = ''Urgent'',
            category_confidence = 1, priority_confidence = 1, num_models = 1\<rparr>) = wc
            else category \<lparr>category = ''netwrk'', priority = ''Urgent'',
            category_confidence = 1, priority_confidence = 1, num_models = 1\<rparr> = wc)
        \<and> (if wp \<in> valid_priorities
            then priority \<lparr>category = ''netwrk'', priority = ''Urgent'',
            category_confidence = 1, priority_confidence = 1, num_models = 1\<rparr> \<in> set PRIORITIES
               \<and> lower (priority \<lparr>category = ''netwrk'', priority = ''Urgent'',
            category_confidence = 1, priority_confidence = 1, num_models = 1\<rparr>) = wp
            else priority \<lparr>category = ''netwrk'', priority = ''Urgent'',
            category_confidence = 1, priority_confidence = 1, num_models = 1\<rparr> = wp))"
proof -
  have a: "validated_forward (always_returns ''netwrk'' ''urgnt'') ''VPN is down''
     = Inr \<lparr>category = ''Application'', priority = ''Low'', is_valid = False\<rparr>"
    by code_simp
  have b: "retry_forward example_limit \<lparr>max_retries = 2, initial_delay = Finite 1\<rparr>
       (every_time (always_returns ''netwrk'' ''urgnt'')) ''VPN is down''
     = ([Invoke 0], Inr \<lparr>category = ''netwrk'', priority = ''urgnt'', attempts = 1\<rparr>)"
    by (simp add: retry_forward_def every_time_def always_returns_def)
  have c: "fallback_forward (always_raises ''timeout'') (always_returns ''netwrk'' ''urgnt'') ''VPN is down''
     = Inr \<lparr>category = ''netwrk'', priority = ''urgnt'', model_used = ''fallback''\<rparr>"
    by (simp add: fallback_forward_def always_raises_def always_returns_def)
  have d: "ensemble_forward [(always_returns ''Netwrk'' ''URGENT'', 1)] ''VPN is down''
     = Inr \<lparr>category = ''netwrk'', priority = ''Urgent'',
            category_confidence = 1, priority_confidence = 1, num_models = 1\<rparr>"
    by code_simp
  from wrappers_returned_fields[of "always_returns ''netwrk'' ''urgnt''" "''VPN is down''"
         "\<lparr>category = ''Application'', priority = ''Low'', is_valid = False\<rparr>"
         example_limit "\<lparr>max_retries = 2, initial_delay = Finite 1\<rparr>"
         "every_time (always_returns ''netwrk'' ''urgnt'')" "[Invoke 0]"
         "\<lparr>category = ''netwrk'', priority = ''urgnt'', attempts = 1\<rparr>"
         "always_raises ''timeout''" "always_returns ''netwrk'' ''urgnt''"
         "\<lparr>category = ''netwrk'', priority = ''urgnt'', model_used = ''fallback''\<rparr>"
         "[(always_returns ''Netwrk'' ''URGENT'', 1)]"
         "\<lparr>category = ''netwrk'', priority = ''Urgent'',
            category_confidence = 1, priority_confidence = 1, num_models = 1\<rparr>"]
       a b c d
  show ?thesis by blast
qed

subsection \<open>C2: the raw output ("netwrk", "urgnt")\<close>

text \<open>
  C2, as stated: \<open>validate_and_correct("netwrk", "urgnt")\<close> is
  \<open>("Network", "Urgent", False)\<close>. It is not: the heuristics are substring tests, and
  \<open>"netwrk"\<close> contains neither \<open>"network"\<close> nor \<open>"r\'eseau"\<close>, \<open>"urgnt"\<close> does not contain
  \<open>"urgent"\<close>.
\<close>

theorem netwrk_urgnt_not_heuristically_corrected:
  "validate_and_correct ''netwrk'' ''urgnt'' \<noteq> Inr (''Network'', ''Urgent'', False)"
  by code_simp

text \<open>
  C2, amended: for the raw output \<open>("netwrk", "urgnt")\<close>, \<open>validate_and_correct\<close> returns
  the defaults, category \<open>"Application"\<close> and priority \<open>"Low"\<close>, with the validity flag
  false.
\<close>

theorem netwrk_urgnt_defaults:
  "validate_and_correct ''netwrk'' ''urgnt'' = Inr (''Application'', ''Low'', False)"
  by code_simp

subsection \<open>C3: the defaults of the validator\<close>

text \<open>
  C3, as stated: a priority that matches neither the vocabulary nor a heuristic becomes
  \<open>"Medium"\<close>. The default branch of the source assigns \<open>'Low'\<close>: with a valid category
  and the priority \<open>"whenever"\<close> the result is \<open>("Hardware", "Low", False)\<close>.
\<close>

theorem priority_default_is_low:
  "lower (strip ''whenever'') \<notin> valid_priorities
   \<and> \<not> matches_keyword priority_keywords (lower (strip ''whenever''))
   \<and> validate_and_correct ''Hardware'' ''whenever'' = Inr (''Hardware'', ''Low'', False)
   \<and> validate_and_correct ''Hardware'' ''whenever'' \<noteq> Inr (''Hardware'', ''Medium'', False)"
  by code_simp

text \<open>
  C3, amended: for every raw pair, a category that neither matches the vocabulary (after
  stripping and lowercasing) nor contains any category keyword becomes \<open>"Application"\<close>,
  a priority that neither matches the vocabulary nor contains any priority keyword
  becomes \<open>"Low"\<close>, and in either case the validity flag of the result is false.
\<close>

theorem validate_defaults:
  "(lower (strip cat) \<notin> valid_categories
      \<and> \<not> matches_keyword category_keywords (lower (strip cat))
    \<longrightarrow> (\<exists>p. validate_and_correct cat pri = Inr (''Application'', p, False)))
   \<and> (lower (strip pri) \<notin> valid_priorities
      \<and> \<not> matches_keyword priority_keywords (lower (strip pri))
    \<longrightarrow> (\<exists>c. validate_and_correct cat pri = Inr (c, ''Low'', False)))"
proof (intro conjI impI)
  assume h: "lower (strip cat) \<notin> valid_categories
      \<and> \<not> matches_keyword category_keywords (lower (strip cat))"
  then have "correct_category (lower (strip cat)) = Inr (''Application'', False)"
    by (simp add: correct_category_def category_keywords_def matches_keyword_def)
  moreover obtain p ok where "correct_priority (lower (strip pri)) = Inr (p, ok)"
    using correct_priority_total by blast
  ultimately show "\<exists>p. validate_and_correct cat pri = Inr (''Application'', p, False)"
    by (simp add: validate_and_correct_def)
next
  assume h: "lower (strip pri) \<notin> valid_priorities
      \<and> \<not> matches_keyword priority_keywords (lower (strip pri))"
  then have "correct_priority (lower (strip pri)) = Inr (''Low'', False)"
    by (simp add: correct_priority_def priority_keywords_def matches_keyword_def)
  moreover obtain c ok where "correct_category (lower (strip cat)) = Inr (c, ok)"
    using correct_category_total by blast
  ultimately show "\<exists>c. validate_and_correct cat pri = Inr (c, ''Low'', False)"
    by (simp add: validate_and_correct_def)
qed

theorem validate_defaults_witness:
  "(lower (strip ''printer'') \<notin> valid_categories
      \<and> \<not> matches_keyword category_keywords (lower (strip ''printer'')))
   \<and> (lower (strip '' ASAP '') \<notin> valid_priorities
      \<and> \<not> matches_keyword priority_keywords (lower (strip '' ASAP '')))
   \<and> (\<exists>p. validate_and_correct ''printer'' '' ASAP '' = Inr (''Application'', p, False))
   \<and> (\<exists>c. validate_and_correct ''printer'' '' ASAP '' = Inr (c, ''Low'', False))"
proof -
  have a: "lower (strip ''printer'') \<notin> valid_categories
      \<and> \<not> matches_keyword category_keywords (lower (strip ''printer''))"
    by code_simp
  have b: "lower (strip '' ASAP '') \<notin> valid_priorities
      \<and> \<not> matches_keyword priority_keywords (lower (strip '' ASAP ''))"
    by code_simp
  from a b validate_defaults[of "''printer''" "'' ASAP ''"] show ?thesis by blast
qed

subsection \<open>C4: the fallback executor\<close>

text \<open>
  C4, as stated: when both operations fail, the message of the raised failure references
  the primary cause and the fallback cause. The message is built from the fallback error
  alone: with a primary failure \<open>"timeout"\<close> and a fallback failure \<open>"refused"\<close> it is
  \<open>"Both models failed. Fallback error: refused"\<close>, in which \<open>"timeout"\<close> does not occur.
\<close>

theorem fallback_message_drops_primary:
  "fallback_forward (always_raises ''timeout'') (always_raises ''refused'') ''VPN is down''
     = Inl (Exception ''Both models failed. Fallback error: refused'')
   \<and> \<not> contains ''timeout'' ''Both models failed. Fallback error: refused''"
  by (simp add: fallback_forward_def always_raises_def)

text \<open>
  C4, amended: whenever the primary operation fails and the fallback operation succeeds,
  the result carries the fallback's fields and is tagged \<open>model_used = "fallback"\<close>;
  whenever both fail, the raised failure's message is
  \<open>"Both models failed. Fallback error: "\<close> followed by the fallback failure's text, so it
  references the fallback cause (the primary cause is not part of the message).
\<close>

theorem fallback_tag_and_message:
  "(primary_lm ticket = Inl e \<and> fallback_lm ticket = Inr result \<longrightarrow>
      fallback_forward primary_lm fallback_lm ticket =
        Inr \<lparr>category = category result, priority = priority result, model_used = ''fallback''\<rparr>)
   \<and> (primary_lm ticket = Inl e \<and> fallback_lm ticket = Inl fallback_error \<longrightarrow>
      fallback_forward primary_lm fallback_lm ticket =
        Inl (Exception (''Both models failed. Fallback error: '' @ str_exn fallback_error))
      \<and> contains (str_exn fallback_error)
           (''Both models failed. Fallback error: '' @ str_exn fallback_error))"
  using contains_suffix[of "str_exn fallback_error" "''Both models failed. Fallback error: ''"]
  by (simp add: fallback_forward_def)

theorem fallback_tag_and_message_witness:
  "always_raises ''timeout'' ''t'' = Inl (Exception ''timeout'')
   \<and> always_returns ''Network'' ''High'' ''t'' = Inr \<lparr>category = ''Network'', priority = ''High''\<rparr>
   \<and> always_raises ''refused'' ''t'' = Inl (Exception ''refused'')
   \<and> fallback_forward (always_raises ''timeout'') (always_returns ''Network'' ''High'') ''t'' =
        Inr \<lparr>category = ''Network'', priority = ''High'', model_used = ''fallback''\<rparr>
   \<and> fallback_forward (always_raises ''timeout'') (always_raises ''refused'') ''t'' =
        Inl (Exception ''Both models failed. Fallback error: refused'')"
proof -
  have a: "always_raises ''timeout'' ''t'' = Inl (Exception ''timeout'')"
    by (simp add: always_raises_def)
  have b: "always_returns ''Network'' ''High'' ''t'' = Inr \<lparr>category = ''Network'', priority = ''High''\<rparr>"
    by (simp add: always_returns_def)
  have c: "always_raises ''refused'' ''t'' = Inl (Exception ''refused'')"
    by (simp add: always_raises_def)
  from a b c
    fallback_tag_and_message[of "always_raises ''timeout''" "''t''" "Exception ''timeout''"
              "always_returns ''Network'' ''High''" "\<lparr>category = ''Network'', priority = ''High''\<rparr>"
              "Exception ''refused''"]
    fallback_tag_and_message[of "always_raises ''timeout''" "''t''" "Exception ''timeout''"
              "always_raises ''refused''" "\<lparr>category = ''Network'', priority = ''High''\<rparr>"
              "Exception ''refused''"]
  show ?thesis by simp
qed

subsection \<open>C5: the retry bound\<close>

text \<open>
  C5, as stated: for every operation that fails at every invocation and every
  \<open>max_retries \<ge> 1\<close> the operation is invoked exactly \<open>max_retries\<close> times and the
  terminal failure carries the last error. This needs every delay to be slept: with
  \<open>max_retries = 2\<close> and \<open>initial_delay = -1.0\<close> the first failed attempt is followed by
  \<open>time.sleep(-1.0)\<close>, whose \<open>ValueError\<close> leaves \<open>forward\<close> after a single invocation.
\<close>

theorem retry_negative_delay_stops_early:
  "every_time (always_raises ''timeout'') 0 ''VPN is down'' = Inl (Exception ''timeout'')
   \<and> every_time (always_raises ''timeout'') 1 ''VPN is down'' = Inl (Exception ''timeout'')
   \<and> retry_forward example_limit \<lparr>max_retries = 2, initial_delay = Finite (- 1)\<rparr>
        (every_time (always_raises ''timeout'')) ''VPN is down''
       = ([Invoke 0], Inl ValueError)"
  by (simp add: retry_forward_def every_time_def always_raises_def backoff_delay_def
        time_sleep_def example_limit_def)

text \<open>
  C5, amended: for every operation that fails at every invocation and every
  \<open>max_retries \<ge> 1\<close>, provided each delay \<open>initial_delay * 2 ^ k\<close> due after the failed
  attempt \<open>k\<close> (from 0, for every attempt but the last) can be slept, that is
  \<open>initial_delay\<close> is finite and not negative, \<open>k < 1024\<close>, and the delay neither
  overflows nor exceeds the platform's limit: \<open>RetryTicketClassifier.forward\<close> invokes the
  operation exactly \<open>max_retries\<close> times, sleeps \<open>initial_delay * 2 ^ k\<close> after the
  failed attempt \<open>k\<close> for every attempt but the last, makes no further attempt, and
  raises \<open>"Failed after <max_retries> attempts: <last error>"\<close>. The whole trace is
  \<open>backoff_trace\<close>; its invocations and its sleeps are also counted separately.
\<close>

theorem retry_bound:
  assumes "1 \<le> max_retries self"
      and "\<forall>k. classifier k ticket = Inl (err k)"
      and "list_all (acceptable_delay limit (initial_delay self))
             [0..<nat (max_retries self) - 1]"
  shows "\<exists>tr. retry_forward limit self classifier ticket =
           (tr, Inl (Exception (''Failed after '' @ str_int (max_retries self) @ '' attempts: ''
                                  @ str_exn (err (nat (max_retries self) - 1)))))
         \<and> tr = backoff_trace (initial_delay self) (nat (max_retries self)) 0
         \<and> length (filter is_invoke tr) = nat (max_retries self)
         \<and> sleeps tr = map (scaled (initial_delay self)) [0..<nat (max_retries self) - 1]"
proof -
  have "int 0 < max_retries self" using assms(1) by simp
  from retry_loop_all_fail[where classifier = classifier and ticket = ticket and err = err
        and a = 0 and self = self and le = None and tr = "[]" and limit = limit,
        OF assms(2) this assms(3)]
  show ?thesis
    using count_invokes_backoff[of 0 "nat (max_retries self)" "initial_delay self"]
          sleeps_backoff[of 0 "nat (max_retries self)" "initial_delay self"]
    by (simp add: retry_forward_def failure_message_def)
qed

text \<open>With \<open>max_retries = 3\<close> and \<open>initial_delay = 1.0\<close>: three invocations, sleeps of 1 and 2.\<close>

theorem retry_bound_witness:
  "(1::int) \<le> max_retries \<lparr>max_retries = 3, initial_delay = Finite 1\<rparr>
   \<and> (\<forall>k. every_time (always_raises ''timeout'') k ''VPN is down'' = Inl (Exception ''timeout''))
   \<and> list_all (acceptable_delay example_limit
                 (initial_delay \<lparr>max_retries = 3, initial_delay = Finite 1\<rparr>))
        [0..<nat (max_retries \<lparr>max_retries = 3, initial_delay = Finite 1\<rparr>) - 1]
   \<and> retry_forward example_limit \<lparr>max_retries = 3, initial_delay = Finite 1\<rparr>
        (every_time (always_raises ''timeout'')) ''VPN is down'' =
       ([Invoke 0, Sleep (Finite 1), Invoke 1, Sleep (Finite 2), Invoke 2],
        Inl (Exception ''Failed after 3 attempts: timeout''))"
proof -
  have a: "(1::int) \<le> max_retries \<lparr>max_retries = 3, initial_delay = Finite 1\<rparr>" by simp
  have b: "\<forall>k. every_time (always_raises ''timeout'') k ''VPN is down'' = Inl (Exception ''timeout'')"
    by (simp add: every_time_def always_raises_def)
  have c: "backoff_trace (Finite 1) (nat 3) 0
             = [Invoke 0, Sleep (Finite 1), Invoke 1, Sleep (Finite 2), Invoke 2]"
    by code_simp
  have d: "str_int 3 = ''3''" by code_simp
  have e: "list_all (acceptable_delay example_limit
                 (initial_delay \<lparr>max_retries = 3, initial_delay = Finite 1\<rparr>))
        [0..<nat (max_retries \<lparr>max_retries = 3, initial_delay = Finite 1\<rparr>) - 1]"
    by code_simp
  from retry_bound[where self = "\<lparr>max_retries = 3, initial_delay = Finite 1\<rparr>"
        and classifier = "every_time (always_raises ''timeout'')"
        and ticket = "''VPN is down''" and err = "\<lambda>k. Exception ''timeout''"
        and limit = example_limit, OF a b e] c d
  show ?thesis using a b e by simp
qed

subsection \<open>C6: the majority vote\<close>




subsection \<open>C7: when the ensemble fails\<close>




subsection \<open>C8: idempotence of the validator\<close>

text \<open>
  C8, as stated: applying \<open>validate_and_correct\<close> to the category and priority it returned
  gives the same triple again. The fields are the same, the flag need not be: the
  defaults returned for \<open>("printer", "asap")\<close> come with the flag false, and are valid
  vocabulary values when validated again.
\<close>

theorem validate_flag_not_idempotent:
  "validate_and_correct ''printer'' ''asap'' = Inr (''Application'', ''Low'', False)
   \<and> validate_and_correct ''Application'' ''Low'' = Inr (''Application'', ''Low'', True)"
  by code_simp

text \<open>
  C8, amended: \<open>validate_and_correct\<close> never raises, and applying it to the category and
  priority it returned yields the same category and priority, with the validity flag
  true.
\<close>

theorem validate_fields_idempotent:
  "\<exists>c p v. validate_and_correct x y = Inr (c, p, v)
           \<and> validate_and_correct c p = Inr (c, p, True)"
  using validate_and_correct_total[of x y] validate_canonical by blast

subsection \<open>C9: the reward function\<close>

text \<open>
  C9, as stated: for every prediction the reward function returns a score, counting 0.0
  for a field that is absent or invalid. A field that is present with the value \<open>None\<close>
  passes \<open>hasattr\<close>, and \<open>None.strip()\<close> raises \<open>AttributeError\<close>: no score is returned.
\<close>

theorem reward_function_raises_on_non_string:
  "reward_function () \<lparr>category_attr = NonStr, priority_attr = Str ''Low''\<rparr>
     = Inl AttributeError"
  by (simp add: reward_function_def score_field_def)

text \<open>
  C9, amended: for every prediction whose present fields are strings, the reward
  function returns 0.5 for each of the two fields that is present with its stripped,
  lowercased value in the vocabulary and 0.0 for each field that is absent or
  off-vocabulary, so the reward is one of 0, 1/2, 1 and lies between 0 and 1.
\<close>

theorem reward_function_value:
  assumes "category_attr pred \<noteq> NonStr"
      and "priority_attr pred \<noteq> NonStr"
  shows "reward_function args pred =
           Inr (field_score valid_categories (category_attr pred)
                + field_score valid_priorities (priority_attr pred))
         \<and> field_score valid_categories (category_attr pred)
             + field_score valid_priorities (priority_attr pred) \<in> {0, 1/2, 1}
         \<and> 0 \<le> field_score valid_categories (category_attr pred)
                + field_score valid_priorities (priority_attr pred)
         \<and> field_score valid_categories (category_attr pred)
             + field_score valid_priorities (priority_attr pred) \<le> 1"
  using assms
  by (cases "category_attr pred"; cases "priority_attr pred")
     (simp_all add: reward_function_def score_field_def field_score_def field_valid_def)

text \<open>A prediction with the category \<open>" hardware "\<close> and no priority scores 1/2.\<close>

theorem reward_function_value_witness:
  "category_attr \<lparr>category_attr = Str '' hardware '', priority_attr = Absent\<rparr> \<noteq> NonStr
   \<and> priority_attr \<lparr>category_attr = Str '' hardware '', priority_attr = Absent\<rparr> \<noteq> NonStr
   \<and> reward_function () \<lparr>category_attr = Str '' hardware '', priority_attr = Absent\<rparr>
       = Inr (1 / 2)"
proof -
  have a: "category_attr \<lparr>category_attr = Str '' hardware '', priority_attr = Absent\<rparr> \<noteq> NonStr"
    by simp
  have b: "priority_attr \<lparr>category_attr = Str '' hardware '', priority_attr = Absent\<rparr> \<noteq> NonStr"
    by simp
  have c: "field_score valid_categories
             (category_attr \<lparr>category_attr = Str '' hardware '', priority_attr = Absent\<rparr>)
           + field_score valid_priorities
             (priority_attr \<lparr>category_attr = Str '' hardware '', priority_attr = Absent\<rparr>)
           = 1 / 2"
    by code_simp
  from reward_function_value[OF a b, of "()"] a b c show ?thesis by simp
qed

subsection \<open>C10: the combined pair\<close>

text \<open>
  C10, as stated, gives members predicting (A,X), (A,Y), (B,Y) as an instance where the
  returned pair is the pair of no member. There the ensemble returns (A,Y), which is the
  pair predicted by the second member.
\<close>

theorem example_pair_is_member_pair:
  "ensemble_forward [(always_returns ''Hardware'' ''Low'', 1),
                     (always_returns ''Hardware'' ''High'', 1),
                     (always_returns ''Software'' ''High'', 1)] ''My screen is black''
     = Inr \<lparr>category = ''Hardware'', priority = ''High'',
            category_confidence = 2 / 3, priority_confidence = 2 / 3, num_models = 3\<rparr>
   \<and> predicts (always_returns ''Hardware'' ''High'') ''My screen is black'' ''Hardware'' ''High''"
  by code_simp

text \<open>
  C10, amended: category and priority are resolved by two independent tallies over the
  same ballots, so the returned pair can be the pair of no successful member: members
  predicting (A,X), (B,Y), (C,Y) yield (A,Y), since A is the first of three tied
  categories and Y has two of the three priority ballots.
\<close>

theorem ensemble_mixed_pair:
  "ensemble_forward [(always_returns ''Hardware'' ''Low'', 1),
                     (always_returns ''Software'' ''High'', 1),
                     (always_returns ''Network'' ''High'', 1)] ''My screen is black''
     = Inr \<lparr>category = ''Hardware'', priority = ''High'',
            category_confidence = 1 / 3, priority_confidence = 2 / 3, num_models = 3\<rparr>
   \<and> succeeds (always_returns ''Hardware'' ''Low'') ''My screen is black''
   \<and> succeeds (always_returns ''Software'' ''High'') ''My screen is black''
   \<and> succeeds (always_returns ''Network'' ''High'') ''My screen is black''
   \<and> \<not> predicts (always_returns ''Hardware'' ''Low'') ''My screen is black'' ''Hardware'' ''High''
   \<and> \<not> predicts (always_returns ''Software'' ''High'') ''My screen is black'' ''Hardware'' ''High''
   \<and> \<not> predicts (always_returns ''Network'' ''High'') ''My screen is black'' ''Hardware'' ''High''"
  by code_simp

end
